theory Spec2Isabelle
  imports Main
begin

section \<open>The frame extractor script\<close>

text \<open>
  The script under verification (26 lines of Python) creates an output folder, opens a
  video with OpenCV, reads it frame by frame, stores every frame as
  \<^verbatim>\<open>frame_NNNN.png\<close> in the folder and prints how many frames it counted.

  The script is a sequence of calls into the standard library and OpenCV. Their answers
  are the environment of a run (\<open>env\<close>); what the script does with the answers is the
  model. Library calls are modelled by what their interface documents:
  \<^item> \<^verbatim>\<open>os.makedirs(name, exist_ok=True)\<close> raises \<^verbatim>\<open>OSError\<close> when the directory cannot
    be made and is not already there;
  \<^item> \<^verbatim>\<open>cv2.VideoCapture(path)\<close> returns a capture object in every case; one that could
    not be opened answers every \<^verbatim>\<open>read()\<close> with \<^verbatim>\<open>(False, None)\<close>;
  \<^item> \<^verbatim>\<open>cv2.imwrite(path, img)\<close> returns a boolean, \<^verbatim>\<open>False\<close> when the file could not
    be written.
\<close>

subsection \<open>The two path constants\<close>

definition backslash :: char where
  "backslash = CHR 0x5C"

definition video_path :: string where
  "video_path = ''H:'' @ [backslash] @ ''H_downloads'' @ [backslash] @ ''github--banner.mp4''"

definition output_folder :: string where
  "output_folder = ''H:'' @ [backslash] @ ''H_downloads'' @ [backslash] @ ''allpng''"

subsection \<open>Number formatting\<close>

text \<open>
  \<open>decimal n\<close> is the decimal representation of a natural number, as Python prints the
  magnitude of an integer.
\<close>

definition digit_char :: "nat \<Rightarrow> char" where
  "digit_char d = ''0123456789'' ! d"

fun decimal :: "nat \<Rightarrow> string" where
  "decimal n = (if n < 10 then [digit_char n] else decimal (n div 10) @ [digit_char (n mod 10)])"

declare decimal.simps [simp del]

text \<open>
  \<open>format_d w n\<close> is the format specification \<^verbatim>\<open>0wd\<close> of Python (the script uses
  \<^verbatim>\<open>{frame_count:04d}\<close>): the sign of a negative number first, then zeros until the
  whole text is \<open>w\<close> characters wide, then the digits. A number with more digits than
  the width is printed in full. \<open>str_int\<close> is the plain \<^verbatim>\<open>{frame_count}\<close> of the final
  message.
\<close>

definition format_d :: "nat \<Rightarrow> int \<Rightarrow> string" where
  "format_d w n =
     (let sign = (if n < 0 then ''-'' else []);
          ds = decimal (nat \<bar>n\<bar>)
      in sign @ replicate (w - (length sign + length ds)) (CHR ''0'') @ ds)"

definition str_int :: "int \<Rightarrow> string" where
  "str_int n = (if n < 0 then ''-'' else []) @ decimal (nat \<bar>n\<bar>)"

definition frame_name :: "int \<Rightarrow> string" where
  "frame_name frame_count = ''frame_'' @ format_d 4 frame_count @ ''.png''"

definition done_message :: "int \<Rightarrow> string" where
  "done_message frame_count = ''Done! Extracted '' @ str_int frame_count @ '' frames.''"

text \<open>
  Reading a decimal text back, used to show that formatting loses nothing.
\<close>

definition digit_val :: "char \<Rightarrow> nat" where
  "digit_val c = of_char c - 48"

definition read_decimal :: "string \<Rightarrow> nat" where
  "read_decimal s = foldl (\<lambda>a c. 10 * a + digit_val c) 0 s"

subsection \<open>Joining the folder and the file name\<close>

text \<open>
  \<^verbatim>\<open>os.path.join(folder, name)\<close> for a second component that is a plain file name (no
  drive, no separator), as every \<open>frame_name\<close> is, in the Windows flavour the paths of
  the script are written in: the name is appended to the folder, after a backslash unless
  the folder is empty, ends with a separator already, or is a bare drive such as
  \<^verbatim>\<open>H:\<close>.
\<close>

definition path_seps :: "char list" where
  "path_seps = [backslash, CHR ''/'']"

definition path_join :: "string \<Rightarrow> string \<Rightarrow> string" where
  "path_join folder name =
     (if folder = [] \<or> last folder \<in> set path_seps
         \<or> (length folder = 2 \<and> folder ! 1 = CHR '':'')
      then folder @ name
      else folder @ [backslash] @ name)"

definition frame_path :: "string \<Rightarrow> int \<Rightarrow> string" where
  "frame_path folder frame_count = path_join folder (frame_name frame_count)"

subsection \<open>The environment and the state of a run\<close>

text \<open>
  The environment answers the library calls. \<open>mkdir_ok p\<close>: the operating system lets
  the directory \<open>p\<close> be made (with its missing ancestors). \<open>video p\<close>: \<open>None\<close> when
  the video at \<open>p\<close> cannot be opened, otherwise the answers of its successive reads, the
  \<open>k\<close>-th read giving \<open>Some frame\<close> for \<^verbatim>\<open>(True, frame)\<close> and \<open>None\<close> for
  \<^verbatim>\<open>(False, None)\<close>. \<open>write_ok p\<close>: an image can be stored at \<open>p\<close>.
\<close>

record 'f env =
  mkdir_ok :: "string \<Rightarrow> bool"
  video :: "string \<Rightarrow> (nat \<Rightarrow> 'f option) option"
  write_ok :: "string \<Rightarrow> bool"

datatype error = OSError

record 'f capture =
  opened :: bool
  stream :: "nat \<Rightarrow> 'f option"
  pos :: nat
  released :: bool

text \<open>
  The variables of the script, with the log of the \<^verbatim>\<open>cv2.imwrite\<close> calls made so far:
  path, frame and returned value of each call, oldest first.
\<close>

record 'f vars =
  cap :: "'f capture"
  frame_count :: int
  imwrites :: "(string \<times> 'f \<times> bool) list"

text \<open>What a run that reaches its last line leaves behind.\<close>

record 'f finished =
  dirs :: "string set"
  final_cap :: "'f capture"
  written :: "(string \<times> 'f \<times> bool) list"
  stdout :: "string list"

subsection \<open>The library calls\<close>

text \<open>
  \<^verbatim>\<open>os.makedirs\<close> tries to make the directory; when that fails it raises, unless
  \<open>exist_ok\<close> is set and the directory is there.
\<close>

definition makedirs :: "'f env \<Rightarrow> string set \<Rightarrow> string \<Rightarrow> bool \<Rightarrow> error + string set" where
  "makedirs e ds name exist_ok =
     (if name \<notin> ds \<and> mkdir_ok e name then Inr (insert name ds)
      else if \<not> exist_ok \<or> name \<notin> ds then Inl OSError
      else Inr ds)"

definition VideoCapture :: "'f env \<Rightarrow> string \<Rightarrow> 'f capture" where
  "VideoCapture e path =
     (case video e path of
        None \<Rightarrow> \<lparr>opened = False, stream = (\<lambda>k. None), pos = 0, released = False\<rparr>
      | Some rd \<Rightarrow> \<lparr>opened = True, stream = rd, pos = 0, released = False\<rparr>)"

definition cap_read :: "'f capture \<Rightarrow> 'f option \<times> 'f capture" where
  "cap_read c =
     (if \<not> opened c \<or> released c then (None, c)
      else case stream c (pos c) of
             None \<Rightarrow> (None, c)
           | Some frame \<Rightarrow> (Some frame, c\<lparr>pos := pos c + 1\<rparr>))"

definition cap_release :: "'f capture \<Rightarrow> 'f capture" where
  "cap_release c = c\<lparr>released := True\<rparr>"

definition imwrite :: "'f env \<Rightarrow> string \<Rightarrow> 'f \<Rightarrow> bool" where
  "imwrite e path img = write_ok e path"

subsection \<open>The script\<close>

text \<open>
  One pass through the body of \<^verbatim>\<open>while True\<close>: \<open>Inl\<close> is the \<^verbatim>\<open>break\<close>, \<open>Inr\<close> the
  state at the end of the body. The value \<^verbatim>\<open>cv2.imwrite\<close> returns is not looked at by
  the script; the log keeps it.
\<close>

definition loop_body :: "'f env \<Rightarrow> string \<Rightarrow> 'f vars \<Rightarrow> 'f vars + 'f vars" where
  "loop_body e folder v =
     (case cap_read (cap v) of
        (None, c) \<Rightarrow> Inl (v\<lparr>cap := c\<rparr>)
      | (Some frame, c) \<Rightarrow>
          (let output_path = path_join folder (frame_name (frame_count v));
               r = imwrite e output_path frame
           in Inr (v\<lparr>cap := c,
                     imwrites := imwrites v @ [(output_path, frame, r)],
                     frame_count := frame_count v + 1\<rparr>)))"

text \<open>
  The loop has no bound of its own: it ends when a read fails. A loop that never ends is
  the value \<open>None\<close>.
\<close>

partial_function (option) extract_loop :: "'f env \<Rightarrow> string \<Rightarrow> 'f vars \<Rightarrow> 'f vars option" where
  "extract_loop e folder v =
     (case loop_body e folder v of
        Inl v' \<Rightarrow> Some v'
      | Inr v' \<Rightarrow> extract_loop e folder v')"

text \<open>
  The whole script, from the directories that exist when it starts. \<open>init_vars\<close> are
  the variables when the loop is entered. \<open>Inl\<close> is the exception of
  \<^verbatim>\<open>os.makedirs\<close>, which ends the run before anything else happened.
\<close>

definition init_vars :: "'f env \<Rightarrow> string \<Rightarrow> 'f vars" where
  "init_vars e vpath = \<lparr>cap = VideoCapture e vpath, frame_count = 0, imwrites = []\<rparr>"

definition extract_frames ::
  "'f env \<Rightarrow> string \<Rightarrow> string \<Rightarrow> string set \<Rightarrow> (error + 'f finished) option" where
  "extract_frames e vpath folder ds =
     (case makedirs e ds folder True of
        Inl err \<Rightarrow> Some (Inl err)
      | Inr ds' \<Rightarrow>
          (case extract_loop e folder (init_vars e vpath) of
             None \<Rightarrow> None
           | Some v \<Rightarrow>
               Some (Inr \<lparr>dirs = ds', final_cap = cap_release (cap v),
                          written = imwrites v,
                          stdout = [done_message (frame_count v)]\<rparr>)))"

definition main :: "'f env \<Rightarrow> string set \<Rightarrow> (error + 'f finished) option" where
  "main e ds = extract_frames e video_path output_folder ds"

subsection \<open>What the log of a run is expected to hold\<close>

text \<open>
  \<open>frame_log e folder rd c p n\<close> lists the \<^verbatim>\<open>cv2.imwrite\<close> calls of \<open>n\<close> passes through
  the loop body that start with \<open>frame_count = c\<close> at position \<open>p\<close> of the stream
  \<open>rd\<close>. It is not part of the script: the lemmas below compare the script with it.
\<close>

definition frame_log :: "'f env \<Rightarrow> string \<Rightarrow> (nat \<Rightarrow> 'f option) \<Rightarrow> int \<Rightarrow> nat \<Rightarrow> nat \<Rightarrow> (string \<times> 'f \<times> bool) list" where
  "frame_log e folder rd c p n =
     map (\<lambda>k. (frame_path folder (c + int k), the (rd (p + k)), write_ok e (frame_path folder (c + int k)))) [0..<n]"

subsection \<open>Concrete runs\<close>

text \<open>
  A video of three frames (a frame is stood for by its number), in an environment where
  every directory can be made and every image stored; the same with a first image that
  cannot be stored; the same where no directory can be made; and a video that opens and
  has no frame.
\<close>

definition clip :: "nat \<Rightarrow> nat option" where
  "clip k = (if k < 3 then Some k else None)"

definition demo_env :: "nat env" where
  "demo_env = \<lparr>mkdir_ok = (\<lambda>p. True),
                video = (\<lambda>p. if p = ''clip.mp4'' then Some clip else None),
                write_ok = (\<lambda>p. True)\<rparr>"

definition unwritable_env :: "nat env" where
  "unwritable_env = demo_env\<lparr>write_ok := (\<lambda>p. p \<noteq> frame_path ''out'' 0)\<rparr>"

definition readonly_env :: "nat env" where
  "readonly_env = demo_env\<lparr>mkdir_ok := (\<lambda>p. False)\<rparr>"

definition empty_env :: "nat env" where
  "empty_env = \<lparr>mkdir_ok = (\<lambda>p. True), video = (\<lambda>p. Some (\<lambda>k. None)), write_ok = (\<lambda>p. True)\<rparr>"

section \<open>Lemmas\<close>

subsection \<open>Formatting and reading back\<close>

lemma decimal_12345: "decimal 12345 = ''12345''"
  by (simp add: decimal.simps digit_char_def)

lemma digit_val_digit_char: "d < 10 \<Longrightarrow> digit_val (digit_char d) = d"
proof -
  assume "d < 10"
  then have "d \<in> {0,1,2,3,4,5,6,7,8,9}" by auto
  then show ?thesis by (auto simp: digit_val_def digit_char_def)
qed

lemma read_decimal_snoc: "read_decimal (s @ [c]) = 10 * read_decimal s + digit_val c"
  by (simp add: read_decimal_def)

lemma read_decimal_decimal: "read_decimal (decimal n) = n"
proof (induction n rule: decimal.induct)
  case (1 n)
  show ?case
  proof (cases "n < 10")
    case True
    then show ?thesis
      by (subst decimal.simps) (simp add: read_decimal_def digit_val_digit_char)
  next
    case False
    with 1 have "read_decimal (decimal (n div 10)) = n div 10" by simp
    with False show ?thesis
      by (subst decimal.simps) (simp add: read_decimal_snoc digit_val_digit_char)
  qed
qed

lemma read_decimal_zeros: "read_decimal (replicate k (CHR ''0'') @ s) = read_decimal s"
proof -
  have z: "foldl (\<lambda>a c. 10 * a + digit_val c) 0 (replicate k (CHR ''0'')) = 0"
    by (induction k) (simp_all add: digit_val_def)
  show ?thesis by (simp add: read_decimal_def z)
qed

lemma decimal_nonempty: "decimal n \<noteq> []"
  by (subst decimal.simps) simp

lemma decimal_length_lt: "n < 10 ^ k \<Longrightarrow> 0 < k \<Longrightarrow> length (decimal n) \<le> k"
proof (induction n arbitrary: k rule: decimal.induct)
  case (1 n)
  show ?case
  proof (cases "n < 10")
    case True
    then show ?thesis using 1(3) by (subst decimal.simps) simp
  next
    case False
    then obtain k' where k: "k = Suc k'" using 1(3) by (cases k) auto
    with False 1(2) have k'pos: "0 < k'" by (cases k') auto
    from 1(2) k have "n div 10 < 10 ^ k'" by (simp add: less_mult_imp_div_less mult.commute)
    with 1(1) False k'pos have "length (decimal (n div 10)) \<le> k'" by simp
    with False k show ?thesis by (subst decimal.simps) simp
  qed
qed

lemma decimal_length_ge: "10 ^ k \<le> n \<Longrightarrow> k < length (decimal n)"
proof (induction n arbitrary: k rule: decimal.induct)
  case (1 n)
  show ?case
  proof (cases "n < 10")
    case True
    with 1(2) have "(10::nat) ^ k < 10 ^ 1" by simp
    then have "k = 0" by (simp only: power_strict_increasing_iff)
    then show ?thesis using decimal_nonempty by (simp add: )
  next
    case False
    show ?thesis
    proof (cases k)
      case 0
      then show ?thesis using decimal_nonempty by simp
    next
      case (Suc k')
      with 1(2) have "10 ^ k' \<le> n div 10" by (simp add: less_eq_div_iff_mult_less_eq mult.commute)
      with 1(1) False have "k' < length (decimal (n div 10))" by simp
      with False Suc show ?thesis by (subst decimal.simps) simp
    qed
  qed
qed

lemma format_d_nonneg: "0 \<le> n \<Longrightarrow> format_d w n = replicate (w - length (decimal (nat n))) (CHR ''0'') @ decimal (nat n)"
  by (simp add: format_d_def Let_def)

lemma read_decimal_format_d: "0 \<le> n \<Longrightarrow> read_decimal (format_d w n) = nat n"
  by (simp add: format_d_nonneg read_decimal_zeros read_decimal_decimal)

lemma format_d_inj: "0 \<le> i \<Longrightarrow> 0 \<le> j \<Longrightarrow> format_d w i = format_d w j \<Longrightarrow> i = j"
proof -
  assume i: "0 \<le> i" and j: "0 \<le> j" and eq: "format_d w i = format_d w j"
  from eq have "read_decimal (format_d w i) = read_decimal (format_d w j)" by simp
  with i j have "nat i = nat j" by (simp add: read_decimal_format_d)
  with i j show "i = j" by simp
qed

lemma path_join_prefix: "\<exists>pre. \<forall>name. path_join folder name = pre @ name"
proof (cases "folder = [] \<or> last folder \<in> set path_seps \<or> (length folder = 2 \<and> folder ! 1 = CHR '':'')")
  case True
  then have "\<forall>name. path_join folder name = folder @ name" by (simp add: path_join_def)
  then show ?thesis by blast
next
  case False
  then have "\<forall>name. path_join folder name = (folder @ [backslash]) @ name" by (simp add: path_join_def)
  then show ?thesis by blast
qed

lemma path_join_inj: "path_join folder a = path_join folder b \<Longrightarrow> a = b"
  using path_join_prefix [of folder] by auto

lemma frame_name_inj: "0 \<le> i \<Longrightarrow> 0 \<le> j \<Longrightarrow> frame_name i = frame_name j \<Longrightarrow> i = j"
  by (auto simp: frame_name_def dest: format_d_inj)

lemma frame_path_inj: "0 \<le> i \<Longrightarrow> 0 \<le> j \<Longrightarrow> frame_path folder i = frame_path folder j \<Longrightarrow> i = j"
  by (auto simp: frame_path_def dest: path_join_inj frame_name_inj)

lemma format_d_full: "10 ^ w \<le> n \<Longrightarrow> format_d (Suc w) n = str_int n"
proof -
  assume a: "10 ^ w \<le> n"
  have "(0::int) < 10 ^ w" by simp
  with a have n0: "0 \<le> n" by linarith
  from a n0 have "10 ^ w \<le> nat n" by (simp add: le_nat_iff)
  then have "w < length (decimal (nat n))" by (rule decimal_length_ge)
  with n0 show ?thesis by (simp add: format_d_nonneg str_int_def)
qed

lemma format_d_length_ge: "w \<le> length (format_d w n)"
  by (simp add: format_d_def Let_def)

lemma format_d_length_eq: "0 \<le> n \<Longrightarrow> n < 10 ^ w \<Longrightarrow> 0 < w \<Longrightarrow> length (format_d w n) = w"
proof -
  assume n0: "0 \<le> n" and lt: "n < 10 ^ w" and w: "0 < w"
  from n0 lt have "nat n < 10 ^ w" by (simp add: nat_less_iff)
  then have "length (decimal (nat n)) \<le> w" using w by (rule decimal_length_lt)
  with n0 show ?thesis by (simp add: format_d_nonneg)
qed

subsection \<open>The expected log\<close>

lemma frame_log_length: "length (frame_log e folder rd c p n) = n"
  by (simp add: frame_log_def)

lemma frame_log_nth:
  "i < n \<Longrightarrow> frame_log e folder rd c p n ! i =
     (frame_path folder (c + int i), the (rd (p + i)), write_ok e (frame_path folder (c + int i)))"
  by (simp add: frame_log_def)

lemma frame_log_paths:
  "map fst (frame_log e folder rd c p n) = map (\<lambda>k. frame_path folder (c + int k)) [0..<n]"
  by (simp add: frame_log_def)

lemma frame_log_frames:
  "map (\<lambda>w. fst (snd w)) (frame_log e folder rd c p n) = map (\<lambda>k. the (rd (p + k))) [0..<n]"
  by (simp add: frame_log_def)

lemma frame_log_distinct: "0 \<le> c \<Longrightarrow> distinct (map fst (frame_log e folder rd c p n))"
proof -
  assume c: "0 \<le> c"
  have "inj_on (\<lambda>k. frame_path folder (c + int k)) (set [0..<n])"
  proof (rule inj_onI)
    fix x y assume "frame_path folder (c + int x) = frame_path folder (c + int y)"
    then have "c + int x = c + int y" using c by (intro frame_path_inj) simp_all
    then show "x = y" by simp
  qed
  then show ?thesis by (simp add: frame_log_paths distinct_map)
qed

lemma frame_log_3:
  "frame_log e folder rd 0 0 3 =
     [(frame_path folder 0, the (rd 0), write_ok e (frame_path folder 0)),
      (frame_path folder 1, the (rd 1), write_ok e (frame_path folder 1)),
      (frame_path folder 2, the (rd 2), write_ok e (frame_path folder 2))]"
proof -
  have "[0..<3::nat] = [0, 1, 2]" by (simp add: upt_rec numeral_eq_Suc)
  then show ?thesis by (simp add: frame_log_def)
qed

subsection \<open>The loop and the whole run\<close>

lemma loop_body_frame:
  "opened (cap v) \<Longrightarrow> \<not> released (cap v) \<Longrightarrow> stream (cap v) (pos (cap v)) = Some fr \<Longrightarrow>
   loop_body e folder v =
     Inr (v\<lparr>cap := (cap v)\<lparr>pos := pos (cap v) + 1\<rparr>,
            imwrites := imwrites v @
              [(frame_path folder (frame_count v), fr, write_ok e (frame_path folder (frame_count v)))],
            frame_count := frame_count v + 1\<rparr>)"
  by (simp add: loop_body_def cap_read_def imwrite_def frame_path_def Let_def)

lemma loop_body_end:
  "\<not> opened (cap v) \<or> released (cap v) \<or> stream (cap v) (pos (cap v)) = None \<Longrightarrow>
   loop_body e folder v = Inl v"
  by (auto simp: loop_body_def cap_read_def)

lemma frame_log_Suc:
  "frame_log e folder rd c p (Suc n) =
     (frame_path folder c, the (rd p), write_ok e (frame_path folder c)) # frame_log e folder rd (c + 1) (p + 1) n"
  by (simp add: frame_log_def map_upt_Suc add.assoc del: upt_Suc)

lemma extract_loop_frames:
  "opened (cap v) \<Longrightarrow> \<not> released (cap v) \<Longrightarrow>
   (\<forall>k<n. stream (cap v) (pos (cap v) + k) \<noteq> None) \<Longrightarrow>
   stream (cap v) (pos (cap v) + n) = None \<Longrightarrow>
   extract_loop e folder v =
     Some (v\<lparr>cap := (cap v)\<lparr>pos := pos (cap v) + n\<rparr>,
             imwrites := imwrites v @ frame_log e folder (stream (cap v)) (frame_count v) (pos (cap v)) n,
             frame_count := frame_count v + int n\<rparr>)"
proof (induction n arbitrary: v)
  case 0
  then have "loop_body e folder v = Inl v" by (simp add: loop_body_end)
  then show ?case by (subst extract_loop.simps) (simp add: frame_log_def)
next
  case (Suc n)
  from Suc.prems(3) obtain fr where fr: "stream (cap v) (pos (cap v)) = Some fr"
    by (metis add.right_neutral not_None_eq zero_less_Suc)
  let ?v = "v\<lparr>cap := (cap v)\<lparr>pos := pos (cap v) + 1\<rparr>,
            imwrites := imwrites v @
              [(frame_path folder (frame_count v), fr, write_ok e (frame_path folder (frame_count v)))],
            frame_count := frame_count v + 1\<rparr>"
  have body: "loop_body e folder v = Inr ?v"
    using Suc.prems(1,2) fr by (rule loop_body_frame)
  have a: "opened (cap ?v)" "\<not> released (cap ?v)" using Suc.prems(1,2) by simp_all
  have b: "\<forall>k<n. stream (cap ?v) (pos (cap ?v) + k) \<noteq> None"
    using Suc.prems(3) by (auto simp: )
  have c: "stream (cap ?v) (pos (cap ?v) + n) = None" using Suc.prems(4) by simp
  have "extract_loop e folder v = extract_loop e folder ?v"
    by (subst extract_loop.simps) (simp add: body)
  also have "\<dots> = Some (?v\<lparr>cap := (cap ?v)\<lparr>pos := pos (cap ?v) + n\<rparr>,
             imwrites := imwrites ?v @ frame_log e folder (stream (cap ?v)) (frame_count ?v) (pos (cap ?v)) n,
             frame_count := frame_count ?v + int n\<rparr>)"
    using a b c by (rule Suc.IH)
  finally show ?case by (simp add: frame_log_Suc fr)
qed

lemma extract_loop_unopened:
  "\<not> opened (cap v) \<or> released (cap v) \<Longrightarrow> extract_loop e folder v = Some v"
  by (subst extract_loop.simps) (simp add: loop_body_end)

lemma loop_body_Inl: "loop_body e folder v = Inl t \<Longrightarrow>
   t = v \<and> (\<not> opened (cap v) \<or> released (cap v) \<or> stream (cap v) (pos (cap v)) = None)"
  by (auto simp: loop_body_def cap_read_def Let_def split: if_splits option.splits)

lemma loop_body_Inr: "loop_body e folder v = Inr t \<Longrightarrow>
   opened (cap v) \<and> \<not> released (cap v) \<and> stream (cap v) (pos (cap v)) \<noteq> None \<and>
   cap t = (cap v)\<lparr>pos := pos (cap v) + 1\<rparr>"
  by (auto simp: loop_body_def cap_read_def Let_def split: if_splits option.splits)

lemma extract_loop_returns:
  assumes ret: "extract_loop e folder v = Some t"
  shows "\<not> opened (cap v) \<or> released (cap v) \<or> (\<exists>n. stream (cap v) (pos (cap v) + n) = None)"
proof (rule extract_loop.raw_induct [where P = "\<lambda>e folder v t.
    \<not> opened (cap v) \<or> released (cap v) \<or> (\<exists>n. stream (cap v) (pos (cap v) + n) = None)", OF _ ret])
  fix loop' :: "'a env \<Rightarrow> string \<Rightarrow> 'a vars \<Rightarrow> 'a vars option" and e folder v t
  assume IH: "\<And>e folder v y. loop' e folder v = Some y \<Longrightarrow>
      \<not> opened (cap v) \<or> released (cap v) \<or> (\<exists>n. stream (cap v) (pos (cap v) + n) = None)"
    and eq: "(case loop_body e folder v of Inl v' \<Rightarrow> Some v' | Inr v' \<Rightarrow> loop' e folder v') = Some t"
  show "\<not> opened (cap v) \<or> released (cap v) \<or> (\<exists>n. stream (cap v) (pos (cap v) + n) = None)"
  proof (cases "loop_body e folder v")
    case (Inl a)
    then show ?thesis by (metis loop_body_Inl add.right_neutral)
  next
    case (Inr v')
    with eq have "loop' e folder v' = Some t" by simp
    then have "\<not> opened (cap v') \<or> released (cap v') \<or> (\<exists>n. stream (cap v') (pos (cap v') + n) = None)"
      by (rule IH)
    with loop_body_Inr [OF Inr] obtain n where "stream (cap v) (pos (cap v) + 1 + n) = None"
      by auto
    then have "stream (cap v) (pos (cap v) + (1 + n)) = None" by (simp add: add.assoc)
    then show ?thesis by blast
  qed
qed

lemma exhausted_least:
  "stream c (p + m) = None \<Longrightarrow> \<exists>n. (\<forall>k<n. stream c (p + k) \<noteq> None) \<and> stream c (p + n) = None"
proof -
  assume a: "stream c (p + m) = None"
  let ?n = "LEAST n. stream c (p + n) = None"
  from a have "stream c (p + ?n) = None" by (rule LeastI)
  moreover have "\<forall>k<?n. stream c (p + k) \<noteq> None" using not_less_Least by blast
  ultimately show ?thesis by blast
qed

lemma extract_frames_frames:
  assumes "folder \<in> ds \<or> mkdir_ok e folder" and "video e vpath = Some rd"
    and "\<forall>k<n. rd k \<noteq> None" and "rd n = None"
  shows "extract_frames e vpath folder ds =
     Some (Inr \<lparr>dirs = insert folder ds,
                final_cap = \<lparr>opened = True, stream = rd, pos = n, released = True\<rparr>,
                written = frame_log e folder rd 0 0 n,
                stdout = [done_message (int n)]\<rparr>)"
proof -
  have mk: "makedirs e ds folder True = Inr (insert folder ds)"
    using assms(1) by (auto simp: makedirs_def insert_absorb)
  let ?v = "init_vars e vpath"
  have c: "cap ?v = \<lparr>opened = True, stream = rd, pos = 0, released = False\<rparr>"
    using assms(2) by (simp add: init_vars_def VideoCapture_def)
  have "extract_loop e folder ?v =
     Some (?v\<lparr>cap := (cap ?v)\<lparr>pos := pos (cap ?v) + n\<rparr>,
             imwrites := imwrites ?v @ frame_log e folder (stream (cap ?v)) (frame_count ?v) (pos (cap ?v)) n,
             frame_count := frame_count ?v + int n\<rparr>)"
    by (rule extract_loop_frames) (simp_all add: c assms(3,4))
  then show ?thesis
    by (simp add: extract_frames_def mk c cap_release_def) (simp add: init_vars_def)
qed

lemma extract_frames_unopened:
  assumes "folder \<in> ds \<or> mkdir_ok e folder" and "video e vpath = None"
  shows "extract_frames e vpath folder ds =
     Some (Inr \<lparr>dirs = insert folder ds,
                final_cap = \<lparr>opened = False, stream = (\<lambda>k. None), pos = 0, released = True\<rparr>,
                written = [],
                stdout = [done_message 0]\<rparr>)"
proof -
  have mk: "makedirs e ds folder True = Inr (insert folder ds)"
    using assms(1) by (auto simp: makedirs_def insert_absorb)
  let ?v = "init_vars e vpath"
  have c: "cap ?v = \<lparr>opened = False, stream = (\<lambda>k. None), pos = 0, released = False\<rparr>"
    using assms(2) by (simp add: init_vars_def VideoCapture_def)
  have "extract_loop e folder ?v = Some ?v"
    by (rule extract_loop_unopened) (simp add: c)
  then show ?thesis
    by (simp add: extract_frames_def mk c cap_release_def) (simp add: init_vars_def)
qed

lemma extract_loop_closed:
  assumes "if opened (cap v) \<and> \<not> released (cap v)
           then (\<forall>k<n. stream (cap v) (pos (cap v) + k) \<noteq> None)
                \<and> stream (cap v) (pos (cap v) + n) = None
           else n = 0"
  shows "extract_loop e folder v =
     Some (v\<lparr>cap := (cap v)\<lparr>pos := pos (cap v) + n\<rparr>,
             imwrites := imwrites v @ frame_log e folder (stream (cap v)) (frame_count v) (pos (cap v)) n,
             frame_count := frame_count v + int n\<rparr>)"
proof (cases "opened (cap v) \<and> \<not> released (cap v)")
  case True
  with assms show ?thesis by (simp add: extract_loop_frames)
next
  case False
  with assms have "n = 0" by simp
  moreover from False have "extract_loop e folder v = Some v"
    by (intro extract_loop_unopened) blast
  ultimately show ?thesis by (simp add: frame_log_def)
qed

lemma extract_loop_Some:
  assumes "extract_loop e folder v = Some t"
  shows "\<exists>n. (if opened (cap v) \<and> \<not> released (cap v)
              then (\<forall>k<n. stream (cap v) (pos (cap v) + k) \<noteq> None)
                   \<and> stream (cap v) (pos (cap v) + n) = None
              else n = 0)
           \<and> t = v\<lparr>cap := (cap v)\<lparr>pos := pos (cap v) + n\<rparr>,
                    imwrites := imwrites v @
                      frame_log e folder (stream (cap v)) (frame_count v) (pos (cap v)) n,
                    frame_count := frame_count v + int n\<rparr>"
proof -
  have "\<exists>n. if opened (cap v) \<and> \<not> released (cap v)
              then (\<forall>k<n. stream (cap v) (pos (cap v) + k) \<noteq> None)
                   \<and> stream (cap v) (pos (cap v) + n) = None
              else n = 0"
  proof (cases "opened (cap v) \<and> \<not> released (cap v)")
    case True
    with extract_loop_returns [OF assms]
    obtain m where "stream (cap v) (pos (cap v) + m) = None" by blast
    from exhausted_least [OF this] True show ?thesis by simp
  next
    case False
    then show ?thesis by auto
  qed
  then obtain n where n: "if opened (cap v) \<and> \<not> released (cap v)
              then (\<forall>k<n. stream (cap v) (pos (cap v) + k) \<noteq> None)
                   \<and> stream (cap v) (pos (cap v) + n) = None
              else n = 0" ..
  from extract_loop_closed [OF n, of e folder] assms
  have t: "t = v\<lparr>cap := (cap v)\<lparr>pos := pos (cap v) + n\<rparr>,
                    imwrites := imwrites v @
                      frame_log e folder (stream (cap v)) (frame_count v) (pos (cap v)) n,
                    frame_count := frame_count v + int n\<rparr>"
    by simp
  from n t show ?thesis by (intro exI [of _ n] conjI)
qed

lemma extract_loop_other_env:
  assumes "extract_loop e1 folder v = Some t1"
  shows "\<exists>t2. extract_loop e2 folder v = Some t2 \<and> cap t2 = cap t1
           \<and> frame_count t2 = frame_count t1
           \<and> map fst (imwrites t2) = map fst (imwrites t1)"
proof -
  from extract_loop_Some [OF assms] obtain n where
    n: "if opened (cap v) \<and> \<not> released (cap v)
        then (\<forall>k<n. stream (cap v) (pos (cap v) + k) \<noteq> None)
             \<and> stream (cap v) (pos (cap v) + n) = None
        else n = 0"
    and t1: "t1 = v\<lparr>cap := (cap v)\<lparr>pos := pos (cap v) + n\<rparr>,
                    imwrites := imwrites v @
                      frame_log e1 folder (stream (cap v)) (frame_count v) (pos (cap v)) n,
                    frame_count := frame_count v + int n\<rparr>"
    by blast
  from extract_loop_closed [OF n, of e2 folder] t1 show ?thesis
    by (simp add: frame_log_paths)
qed

lemma loop_body_Inr_count:
  "loop_body e folder v = Inr t \<Longrightarrow>
   frame_count t = frame_count v + 1
   \<and> fst (last (imwrites t)) = path_join folder (frame_name (frame_count v))"
  by (auto simp: loop_body_def cap_read_def Let_def split: if_splits option.splits)

lemma loop_body_Inr_read: "loop_body e folder v = Inr t \<Longrightarrow> fst (cap_read (cap v)) \<noteq> None"
  by (auto simp: loop_body_def cap_read_def Let_def split: if_splits option.splits)

lemma loop_body_Inl_read: "loop_body e folder v = Inl t \<Longrightarrow> fst (cap_read (cap v)) = None"
  by (auto simp: loop_body_def cap_read_def Let_def split: if_splits option.splits)

lemma loop_body_count_free:
  "map_sum (\<lambda>u. (cap u, map (\<lambda>w. fst (snd w)) (imwrites u)))
           (\<lambda>u. (cap u, map (\<lambda>w. fst (snd w)) (imwrites u)))
     (loop_body e folder (v\<lparr>frame_count := c\<rparr>)) =
   map_sum (\<lambda>u. (cap u, map (\<lambda>w. fst (snd w)) (imwrites u)))
           (\<lambda>u. (cap u, map (\<lambda>w. fst (snd w)) (imwrites u)))
     (loop_body e folder v)"
  by (simp add: loop_body_def cap_read_def Let_def split: option.splits)

text \<open>The script with its own two paths is the instance \<open>main\<close>.\<close>

lemma path_join_output_folder: "path_join output_folder name = output_folder @ [backslash] @ name"
  by (simp add: path_join_def output_folder_def path_seps_def backslash_def)

lemma main_frames:
  assumes "output_folder \<in> ds \<or> mkdir_ok e output_folder" and "video e video_path = Some rd"
    and "\<forall>k<n. rd k \<noteq> None" and "rd n = None"
  shows "main e ds =
     Some (Inr \<lparr>dirs = insert output_folder ds,
                final_cap = \<lparr>opened = True, stream = rd, pos = n, released = True\<rparr>,
                written = frame_log e output_folder rd 0 0 n,
                stdout = [done_message (int n)]\<rparr>)"
  unfolding main_def using assms by (rule extract_frames_frames)

lemma main_unopened:
  assumes "output_folder \<in> ds \<or> mkdir_ok e output_folder" and "video e video_path = None"
  shows "main e ds =
     Some (Inr \<lparr>dirs = insert output_folder ds,
                final_cap = \<lparr>opened = False, stream = (\<lambda>k. None), pos = 0, released = True\<rparr>,
                written = [],
                stdout = [done_message 0]\<rparr>)"
  unfolding main_def using assms by (rule extract_frames_unopened)

subsection \<open>Facts about the concrete runs\<close>

lemma clip_frames: "\<forall>k<3. clip k \<noteq> None" "clip 3 = None"
  by (simp_all add: clip_def)

lemma clip_each: "clip 0 \<noteq> None" "clip 1 \<noteq> None" "clip 2 \<noteq> None"
  by (simp_all add: clip_def)

lemma demo_video: "video demo_env ''clip.mp4'' = Some clip" "video demo_env ''missing.mp4'' = None"
  by (simp_all add: demo_env_def)

lemma demo_mkdir: "''out'' \<in> {} \<or> mkdir_ok demo_env ''out''"
  by (simp add: demo_env_def)

lemma unwritable_facts:
  "''out'' \<in> {} \<or> mkdir_ok unwritable_env ''out''"
  "video unwritable_env ''clip.mp4'' = Some clip"
  "\<not> write_ok unwritable_env (frame_path ''out'' 0)"
  by (simp_all add: unwritable_env_def demo_env_def)

lemma done_message_3: "done_message 3 = ''Done! Extracted 3 frames.''"
  by (simp add: done_message_def str_int_def decimal.simps digit_char_def)

lemma done_message_0: "done_message 0 = ''Done! Extracted 0 frames.''"
  by (simp add: done_message_def str_int_def decimal.simps digit_char_def)

lemma format_d_4_2: "format_d 4 2 = ''0002''"
  by (simp add: format_d_def Let_def decimal.simps digit_char_def numeral_3_eq_3)

lemma path_join_out: "path_join ''out'' name = ''out'' @ [backslash] @ name"
  by (simp add: path_join_def path_seps_def backslash_def)

lemma frame_paths_out:
  "frame_path ''out'' 0 = ''out'' @ [backslash] @ ''frame_0000.png''"
  "frame_path ''out'' 1 = ''out'' @ [backslash] @ ''frame_0001.png''"
  "frame_path ''out'' 2 = ''out'' @ [backslash] @ ''frame_0002.png''"
  by (simp_all add: frame_path_def frame_name_def path_join_out format_d_def Let_def
        decimal.simps digit_char_def numeral_3_eq_3)

section \<open>The claims\<close>

subsection \<open>Counting and naming\<close>

text \<open>
  Claim C1. For a video source that yields exactly \<open>N\<close> decodable frames, the extractor
  makes exactly \<open>N\<close> image writes, one per frame and each to a file of its own, and the
  count it reports is \<open>N\<close>. (The output folder exists or can be made; when every write
  succeeds, \<open>N\<close> files have been stored.)
\<close>

theorem count_correctness:
  assumes "folder \<in> ds \<or> mkdir_ok e folder" and "video e vpath = Some rd"
    and "\<forall>k<N. rd k \<noteq> None" and "rd N = None"
  shows "\<exists>r. extract_frames e vpath folder ds = Some (Inr r)
           \<and> length (written r) = N
           \<and> map (\<lambda>w. fst (snd w)) (written r) = map (\<lambda>k. the (rd k)) [0..<N]
           \<and> distinct (map fst (written r))
           \<and> ((\<forall>k<N. write_ok e (frame_path folder (int k))) \<longrightarrow>
                 length (filter (\<lambda>w. snd (snd w)) (written r)) = N)
           \<and> stdout r = [done_message (int N)]"
proof -
  let ?r = "\<lparr>dirs = insert folder ds,
             final_cap = \<lparr>opened = True, stream = rd, pos = N, released = True\<rparr>,
             written = frame_log e folder rd 0 0 N,
             stdout = [done_message (int N)]\<rparr>"
  have run: "extract_frames e vpath folder ds = Some (Inr ?r)"
    using assms by (rule extract_frames_frames)
  have "(\<forall>k<N. write_ok e (frame_path folder (int k))) \<longrightarrow>
          filter (\<lambda>w. snd (snd w)) (frame_log e folder rd 0 0 N) = frame_log e folder rd 0 0 N"
    by (auto simp: frame_log_def filter_id_conv)
  then have "(\<forall>k<N. write_ok e (frame_path folder (int k))) \<longrightarrow>
          length (filter (\<lambda>w. snd (snd w)) (written ?r)) = N"
    by (simp add: frame_log_length)
  moreover have "length (written ?r) = N" by (simp add: frame_log_length)
  moreover have "map (\<lambda>w. fst (snd w)) (written ?r) = map (\<lambda>k. the (rd k)) [0..<N]"
    by (simp add: frame_log_frames)
  moreover have "distinct (map fst (written ?r))" by (simp add: frame_log_distinct)
  moreover have "stdout ?r = [done_message (int N)]" by simp
  ultimately show ?thesis using run by blast
qed

theorem count_correctness_witness:
  "(''out'' \<in> {} \<or> mkdir_ok demo_env ''out'') \<and> video demo_env ''clip.mp4'' = Some clip
   \<and> clip 0 \<noteq> None \<and> clip 1 \<noteq> None \<and> clip 2 \<noteq> None \<and> clip 3 = None
   \<and> (\<exists>r. extract_frames demo_env ''clip.mp4'' ''out'' {} = Some (Inr r)
          \<and> length (written r) = 3
          \<and> distinct (map fst (written r))
          \<and> length (filter (\<lambda>w. snd (snd w)) (written r)) = 3
          \<and> stdout r = [''Done! Extracted 3 frames.''])"
proof -
  have h: "''out'' \<in> {} \<or> mkdir_ok demo_env ''out''" by (simp add: demo_env_def)
  have w: "\<forall>k<3. write_ok demo_env (frame_path ''out'' (int k))" by (simp add: demo_env_def)
  from count_correctness [OF h demo_video(1) clip_frames] w
  have "\<exists>r. extract_frames demo_env ''clip.mp4'' ''out'' {} = Some (Inr r)
          \<and> length (written r) = 3
          \<and> distinct (map fst (written r))
          \<and> length (filter (\<lambda>w. snd (snd w)) (written r)) = 3
          \<and> stdout r = [done_message 3]"
    by auto
  with h demo_video(1) clip_frames(2) clip_each show ?thesis by (simp add: done_message_3)
qed

text \<open>
  Claim C4. The frame decoded \<open>i\<close>-th (from zero) is written to the path made by joining
  the output folder with \<^verbatim>\<open>frame_\<close>, \<open>i\<close> padded with zeros to four digits, and
  \<^verbatim>\<open>.png\<close>: the index in each file name is the place of its frame in the decode order.
\<close>

theorem order_preservation:
  assumes "folder \<in> ds \<or> mkdir_ok e folder" and "video e vpath = Some rd"
    and "\<forall>k<N. rd k \<noteq> None" and "rd N = None"
  shows "\<exists>r. extract_frames e vpath folder ds = Some (Inr r)
           \<and> length (written r) = N
           \<and> (\<forall>i<N. fst (written r ! i) =
                        path_join folder (''frame_'' @ format_d 4 (int i) @ ''.png'')
                    \<and> rd i = Some (fst (snd (written r ! i))))"
proof -
  let ?r = "\<lparr>dirs = insert folder ds,
             final_cap = \<lparr>opened = True, stream = rd, pos = N, released = True\<rparr>,
             written = frame_log e folder rd 0 0 N,
             stdout = [done_message (int N)]\<rparr>"
  have run: "extract_frames e vpath folder ds = Some (Inr ?r)"
    using assms by (rule extract_frames_frames)
  have "\<forall>i<N. fst (written ?r ! i) = path_join folder (''frame_'' @ format_d 4 (int i) @ ''.png'')
                    \<and> rd i = Some (fst (snd (written ?r ! i)))"
    using assms(3) by (auto simp: frame_log_nth frame_path_def frame_name_def)
  moreover have "length (written ?r) = N" by (simp add: frame_log_length)
  ultimately show ?thesis using run by blast
qed

theorem order_preservation_witness:
  "(''out'' \<in> {} \<or> mkdir_ok demo_env ''out'') \<and> video demo_env ''clip.mp4'' = Some clip
   \<and> clip 0 \<noteq> None \<and> clip 1 \<noteq> None \<and> clip 2 \<noteq> None \<and> clip 3 = None
   \<and> (\<exists>r. extract_frames demo_env ''clip.mp4'' ''out'' {} = Some (Inr r)
          \<and> length (written r) = 3
          \<and> fst (written r ! 2) = ''out'' @ [backslash] @ ''frame_0002.png''
          \<and> clip 2 = Some (fst (snd (written r ! 2))))"
proof -
  have h: "''out'' \<in> {} \<or> mkdir_ok demo_env ''out''" by (simp add: demo_env_def)
  from order_preservation [OF h demo_video(1) clip_frames]
  obtain r where r: "extract_frames demo_env ''clip.mp4'' ''out'' {} = Some (Inr r)"
      "length (written r) = 3"
      "\<forall>i<3. fst (written r ! i) = path_join ''out'' (''frame_'' @ format_d 4 (int i) @ ''.png'')
                    \<and> clip i = Some (fst (snd (written r ! i)))"
    by blast
  from r(3) have "fst (written r ! 2) = path_join ''out'' (''frame_'' @ format_d 4 (int 2) @ ''.png'')"
      and "clip 2 = Some (fst (snd (written r ! 2)))"
    by simp_all
  then have "fst (written r ! 2) = ''out'' @ [backslash] @ ''frame_0002.png''"
      and "clip 2 = Some (fst (snd (written r ! 2)))"
    by (simp_all add: path_join_out format_d_4_2)
  with r(1,2) h demo_video(1) clip_frames(2) clip_each show ?thesis by blast
qed

text \<open>
  Claim C5. For every \<open>N\<close> and all indices \<open>i \<noteq> j\<close> below \<open>N\<close>, the file name made for
  frame \<open>i\<close> differs from the file name made for frame \<open>j\<close>: the naming is injective
  over the indices a run uses.
\<close>

theorem naming_injective_in_run:
  "i < N \<Longrightarrow> j < N \<Longrightarrow> i \<noteq> j \<Longrightarrow> frame_path folder (int i) \<noteq> frame_path folder (int j)"
proof
  assume "i < N" "j < N" and ne: "i \<noteq> j"
    and eq: "frame_path folder (int i) = frame_path folder (int j)"
  have "int i = int j" by (rule frame_path_inj [OF _ _ eq]) simp_all
  with ne show False by simp
qed

theorem naming_injective_in_run_witness:
  "(0::nat) < 3 \<and> (2::nat) < 3 \<and> (0::nat) \<noteq> 2
   \<and> frame_path ''out'' (int 0) \<noteq> frame_path ''out'' (int 2)"
  using naming_injective_in_run [of 0 3 2 "''out''"] by simp

text \<open>
  Claim C9. The formatter pads the index to at least four digits and never truncates: an
  index of 10000 or more is printed as its full decimal representation, the number can be
  read back from the text, and so the naming is injective over all non-negative indices,
  not only below 10000.
\<close>

theorem format_never_truncates:
  "(0 \<le> i \<longrightarrow>
      format_d 4 i = replicate (4 - length (decimal (nat i))) (CHR ''0'') @ decimal (nat i)
      \<and> 4 \<le> length (format_d 4 i)
      \<and> read_decimal (format_d 4 i) = nat i)
   \<and> (10000 \<le> i \<longrightarrow> format_d 4 i = decimal (nat i))
   \<and> (0 \<le> i \<longrightarrow> 0 \<le> j \<longrightarrow> i \<noteq> j \<longrightarrow> frame_path folder i \<noteq> frame_path folder j)"
proof (intro conjI impI)
  assume "0 \<le> i"
  then show "format_d 4 i = replicate (4 - length (decimal (nat i))) (CHR ''0'') @ decimal (nat i)"
    by (rule format_d_nonneg)
next
  show "4 \<le> length (format_d 4 i)" by (rule format_d_length_ge)
next
  assume "0 \<le> i"
  then show "read_decimal (format_d 4 i) = nat i" by (rule read_decimal_format_d)
next
  assume big: "10000 \<le> i"
  then have "10 ^ 3 \<le> nat i" by simp
  then have "3 < length (decimal (nat i))" by (rule decimal_length_ge)
  moreover from big have "0 \<le> i" by simp
  ultimately show "format_d 4 i = decimal (nat i)" by (simp add: format_d_nonneg)
next
  assume "0 \<le> i" "0 \<le> j" "i \<noteq> j"
  then show "frame_path folder i \<noteq> frame_path folder j" using frame_path_inj by blast
qed

theorem format_never_truncates_witness:
  "(0::int) \<le> 12345 \<and> (10000::int) \<le> 12345 \<and> (0::int) \<le> 2345 \<and> (12345::int) \<noteq> 2345
   \<and> format_d 4 12345 = ''12345''
   \<and> read_decimal (format_d 4 12345) = 12345
   \<and> frame_path ''out'' 12345 \<noteq> frame_path ''out'' 2345"
proof -
  have c: "(0::int) \<le> 12345" "(10000::int) \<le> 12345" "(0::int) \<le> 2345" "(12345::int) \<noteq> 2345"
    by simp_all
  with format_never_truncates [of 12345 2345 "''out''"]
  have "format_d 4 12345 = decimal (nat 12345)"
    and "read_decimal (format_d 4 12345) = nat 12345"
    and "frame_path ''out'' 12345 \<noteq> frame_path ''out'' 2345"
    by blast+
  then show ?thesis by (simp add: decimal_12345)
qed

text \<open>
  Claim C8. The frame index is a counter: it is 0 when the loop is entered; a pass
  through the loop body that decodes a frame adds exactly 1 to it and names that frame's
  file with its old value, a pass whose read fails leaves it as it is; so it never
  decreases, and when the loop ends it has grown by the number of frames decoded. It has
  no influence on what is read or when the loop ends, and the message reports it.
\<close>

theorem frame_index_counter:
  "frame_count (init_vars e vpath) = 0
   \<and> (\<forall>v'. loop_body e folder v = Inr v' \<longrightarrow>
          fst (cap_read (cap v)) \<noteq> None \<and> frame_count v' = frame_count v + 1
          \<and> fst (last (imwrites v')) = path_join folder (frame_name (frame_count v)))
   \<and> (\<forall>v'. loop_body e folder v = Inl v' \<longrightarrow>
          fst (cap_read (cap v)) = None \<and> frame_count v' = frame_count v)
   \<and> (\<forall>t. extract_loop e folder v = Some t \<longrightarrow>
          frame_count v \<le> frame_count t
          \<and> frame_count t = frame_count v + int (pos (cap t) - pos (cap v))
          \<and> length (imwrites t) = length (imwrites v) + (pos (cap t) - pos (cap v)))
   \<and> map_sum (\<lambda>u. (cap u, map (\<lambda>w. fst (snd w)) (imwrites u)))
              (\<lambda>u. (cap u, map (\<lambda>w. fst (snd w)) (imwrites u)))
        (loop_body e folder (v\<lparr>frame_count := c\<rparr>)) =
      map_sum (\<lambda>u. (cap u, map (\<lambda>w. fst (snd w)) (imwrites u)))
              (\<lambda>u. (cap u, map (\<lambda>w. fst (snd w)) (imwrites u)))
        (loop_body e folder v)
   \<and> (\<forall>r. extract_frames e vpath folder ds = Some (Inr r) \<longrightarrow>
          stdout r = [done_message (int (length (written r)))])"
proof (intro conjI allI impI)
  show "frame_count (init_vars e vpath) = 0" by (simp add: init_vars_def)
next
  fix v' assume b: "loop_body e folder v = Inr v'"
  then show "fst (cap_read (cap v)) \<noteq> None" by (rule loop_body_Inr_read)
  from b show "frame_count v' = frame_count v + 1"
    and "fst (last (imwrites v')) = path_join folder (frame_name (frame_count v))"
    by (simp_all add: loop_body_Inr_count)
next
  fix v' assume b: "loop_body e folder v = Inl v'"
  then show "fst (cap_read (cap v)) = None" by (rule loop_body_Inl_read)
  from loop_body_Inl [OF b] show "frame_count v' = frame_count v" by simp
next
  fix t assume "extract_loop e folder v = Some t"
  from extract_loop_Some [OF this] obtain n where
    t: "t = v\<lparr>cap := (cap v)\<lparr>pos := pos (cap v) + n\<rparr>,
              imwrites := imwrites v @
                frame_log e folder (stream (cap v)) (frame_count v) (pos (cap v)) n,
              frame_count := frame_count v + int n\<rparr>"
    by blast
  show "frame_count v \<le> frame_count t" by (simp add: t)
  show "frame_count t = frame_count v + int (pos (cap t) - pos (cap v))" by (simp add: t)
  show "length (imwrites t) = length (imwrites v) + (pos (cap t) - pos (cap v))"
    by (simp add: t frame_log_length)
next
  show "map_sum (\<lambda>u. (cap u, map (\<lambda>w. fst (snd w)) (imwrites u)))
              (\<lambda>u. (cap u, map (\<lambda>w. fst (snd w)) (imwrites u)))
        (loop_body e folder (v\<lparr>frame_count := c\<rparr>)) =
      map_sum (\<lambda>u. (cap u, map (\<lambda>w. fst (snd w)) (imwrites u)))
              (\<lambda>u. (cap u, map (\<lambda>w. fst (snd w)) (imwrites u)))
        (loop_body e folder v)"
    by (rule loop_body_count_free)
next
  fix r assume "extract_frames e vpath folder ds = Some (Inr r)"
  then obtain t where t: "extract_loop e folder (init_vars e vpath) = Some t"
      and w: "written r = imwrites t" "stdout r = [done_message (frame_count t)]"
    by (auto simp: extract_frames_def split: sum.splits option.splits)
  from extract_loop_Some [OF t] obtain n where
    "t = (init_vars e vpath)\<lparr>cap := (cap (init_vars e vpath))\<lparr>pos := pos (cap (init_vars e vpath)) + n\<rparr>,
              imwrites := imwrites (init_vars e vpath) @
                frame_log e folder (stream (cap (init_vars e vpath))) (frame_count (init_vars e vpath))
                  (pos (cap (init_vars e vpath))) n,
              frame_count := frame_count (init_vars e vpath) + int n\<rparr>"
    by blast
  then have "frame_count t = int (length (imwrites t))"
    by (simp add: init_vars_def frame_log_length)
  with w show "stdout r = [done_message (int (length (written r)))]" by simp
qed

theorem frame_index_counter_witness:
  "(\<exists>v'. loop_body demo_env ''out'' (init_vars demo_env ''clip.mp4'') = Inr v'
         \<and> frame_count v' = 1)
   \<and> (\<exists>v'. loop_body empty_env ''out'' (init_vars empty_env ''empty.mp4'') = Inl v'
         \<and> frame_count v' = 0)
   \<and> (\<exists>t. extract_loop demo_env ''out'' (init_vars demo_env ''clip.mp4'') = Some t
         \<and> frame_count t = 3)
   \<and> (\<exists>r. extract_frames demo_env ''clip.mp4'' ''out'' {} = Some (Inr r)
         \<and> stdout r = [''Done! Extracted 3 frames.''])"
proof -
  let ?v = "init_vars demo_env ''clip.mp4''"
  let ?u = "init_vars empty_env ''empty.mp4''"
  note demo = frame_index_counter [of demo_env "''clip.mp4''" "''out''" ?v 0 "{}"]
  note empty = frame_index_counter [of empty_env "''empty.mp4''" "''out''" ?u 0 "{}"]
  have cv: "cap ?v = \<lparr>opened = True, stream = clip, pos = 0, released = False\<rparr>"
    by (simp add: init_vars_def VideoCapture_def demo_env_def)
  have cu: "cap ?u = \<lparr>opened = True, stream = (\<lambda>k. None), pos = 0, released = False\<rparr>"
    by (simp add: init_vars_def VideoCapture_def empty_env_def)
  obtain v' where v': "loop_body demo_env ''out'' ?v = Inr v'"
    using loop_body_frame [of ?v 0 demo_env "''out''"] by (simp add: cv clip_def)
  with demo have "frame_count v' = frame_count ?v + 1" "frame_count ?v = 0" by blast+
  then have 1: "frame_count v' = 1" by simp
  have u': "loop_body empty_env ''out'' ?u = Inl ?u"
    by (rule loop_body_end) (simp add: cu)
  with empty have "frame_count ?u = 0" by blast
  with u' have 2: "\<exists>v'. loop_body empty_env ''out'' ?u = Inl v' \<and> frame_count v' = 0" by blast
  obtain t where t: "extract_loop demo_env ''out'' ?v = Some t" and p: "pos (cap t) = 3"
    using extract_loop_frames [of ?v 3 demo_env "''out''"] by (simp add: cv clip_def)
  with demo have "frame_count t = frame_count ?v + int (pos (cap t) - pos (cap ?v))"
    and "frame_count ?v = 0" by blast+
  with p have 3: "frame_count t = 3" by (simp add: cv)
  obtain r where r: "extract_frames demo_env ''clip.mp4'' ''out'' {} = Some (Inr r)"
      and l: "length (written r) = 3"
    using extract_frames_frames [OF demo_mkdir demo_video(1) clip_frames]
    by (simp add: frame_log_length)
  with demo have "stdout r = [done_message (int (length (written r)))]" by blast
  with l have 4: "stdout r = [''Done! Extracted 3 frames.'']" by (simp add: done_message_3)
  from v' 1 2 t 3 r 4 show ?thesis by blast
qed

text \<open>
  Claim C10. The extractor is deterministic in the decode results: two runs whose captures
  give the same sequence of read results, whatever else differs in their environments,
  either both never leave the loop or both leave it, and when both complete they have
  written to the same sequence of paths and report the same count.
\<close>

theorem extraction_deterministic:
  assumes "VideoCapture e1 v1 = VideoCapture e2 v2"
  shows "(extract_loop e1 folder (init_vars e1 v1) = None
            \<longleftrightarrow> extract_loop e2 folder (init_vars e2 v2) = None)
         \<and> (\<forall>r1 r2. extract_frames e1 v1 folder ds1 = Some (Inr r1) \<longrightarrow>
                      extract_frames e2 v2 folder ds2 = Some (Inr r2) \<longrightarrow>
                      map fst (written r1) = map fst (written r2) \<and> stdout r1 = stdout r2)"
proof -
  have iv: "init_vars e2 v2 = init_vars e1 v1" using assms by (simp add: init_vars_def)
  have a: "extract_loop e1 folder (init_vars e1 v1) = None
            \<longleftrightarrow> extract_loop e2 folder (init_vars e2 v2) = None"
    unfolding iv using extract_loop_other_env [of e1 folder "init_vars e1 v1" _ e2]
      extract_loop_other_env [of e2 folder "init_vars e1 v1" _ e1]
    by (metis not_Some_eq)
  have b: "map fst (written r1) = map fst (written r2) \<and> stdout r1 = stdout r2"
    if r1: "extract_frames e1 v1 folder ds1 = Some (Inr r1)"
      and r2: "extract_frames e2 v2 folder ds2 = Some (Inr r2)" for r1 r2
  proof -
    from r1 obtain t1 where t1: "extract_loop e1 folder (init_vars e1 v1) = Some t1"
        and w1: "written r1 = imwrites t1" "stdout r1 = [done_message (frame_count t1)]"
      by (auto simp: extract_frames_def split: sum.splits option.splits)
    from r2 obtain t2 where t2: "extract_loop e2 folder (init_vars e1 v1) = Some t2"
        and w2: "written r2 = imwrites t2" "stdout r2 = [done_message (frame_count t2)]"
      by (auto simp: extract_frames_def iv split: sum.splits option.splits)
    from extract_loop_other_env [OF t1, of e2] t2
    have "frame_count t2 = frame_count t1" "map fst (imwrites t2) = map fst (imwrites t1)"
      by simp_all
    with w1 w2 show ?thesis by simp
  qed
  from a b show ?thesis by blast
qed

theorem extraction_deterministic_witness:
  "VideoCapture demo_env ''clip.mp4'' = VideoCapture unwritable_env ''clip.mp4''
   \<and> (\<exists>r1 r2. extract_frames demo_env ''clip.mp4'' ''out'' {} = Some (Inr r1)
          \<and> extract_frames unwritable_env ''clip.mp4'' ''out'' {''out''} = Some (Inr r2)
          \<and> map fst (written r1) = map fst (written r2) \<and> stdout r1 = stdout r2)"
proof -
  have c: "VideoCapture demo_env ''clip.mp4'' = VideoCapture unwritable_env ''clip.mp4''"
    by (simp add: VideoCapture_def unwritable_env_def demo_env_def)
  have m: "''out'' \<in> {''out''} \<or> mkdir_ok unwritable_env ''out''" by simp
  from extract_frames_frames [OF demo_mkdir demo_video(1) clip_frames]
  obtain r1 where r1: "extract_frames demo_env ''clip.mp4'' ''out'' {} = Some (Inr r1)" by blast
  from extract_frames_frames [OF m unwritable_facts(2) clip_frames]
  obtain r2 where r2: "extract_frames unwritable_env ''clip.mp4'' ''out'' {''out''} = Some (Inr r2)"
    by blast
  from extraction_deterministic [OF c, of "''out''" "{}" "{''out''}"] r1 r2 c
  show ?thesis by blast
qed

subsection \<open>The output folder and the empty video\<close>

text \<open>
  Claim C6. For a source that opens and yields no frame, the run completes: the output
  folder exists afterwards, no image is written and the reported count is 0.
\<close>

theorem zero_frame_run:
  assumes "folder \<in> ds \<or> mkdir_ok e folder" and "video e vpath = Some rd" and "rd 0 = None"
  shows "\<exists>r. extract_frames e vpath folder ds = Some (Inr r)
           \<and> folder \<in> dirs r
           \<and> written r = []
           \<and> stdout r = [''Done! Extracted 0 frames.'']"
proof -
  have "\<forall>k<0. rd k \<noteq> None" by simp
  with assms(1,2) have "extract_frames e vpath folder ds =
     Some (Inr \<lparr>dirs = insert folder ds,
                final_cap = \<lparr>opened = True, stream = rd, pos = 0, released = True\<rparr>,
                written = frame_log e folder rd 0 0 0,
                stdout = [done_message (int 0)]\<rparr>)"
    using assms(3) by (rule extract_frames_frames)
  then show ?thesis by (simp add: frame_log_def done_message_0)
qed

theorem zero_frame_run_witness:
  "(''out'' \<in> {} \<or> mkdir_ok empty_env ''out'') \<and> video empty_env ''empty.mp4'' = Some (\<lambda>k. None)
   \<and> (\<exists>r. extract_frames empty_env ''empty.mp4'' ''out'' {} = Some (Inr r)
           \<and> ''out'' \<in> dirs r
           \<and> written r = []
           \<and> stdout r = [''Done! Extracted 0 frames.''])"
proof -
  have h: "''out'' \<in> {} \<or> mkdir_ok empty_env ''out''" by (simp add: empty_env_def)
  have v: "video empty_env ''empty.mp4'' = Some (\<lambda>k. None)" by (simp add: empty_env_def)
  have z: "(\<lambda>k::nat. None :: nat option) 0 = None" by simp
  from zero_frame_run [OF h v z] h v show ?thesis by blast
qed

text \<open>
  Claim C7. Making the output folder is idempotent: when the folder exists already,
  \<^verbatim>\<open>os.makedirs\<close> with \<^verbatim>\<open>exist_ok=True\<close> succeeds and changes nothing, so neither a run
  against an existing folder nor a second run after it fails on making the folder.
\<close>

theorem makedirs_idempotent:
  assumes "folder \<in> ds"
  shows "makedirs e ds folder True = Inr ds
         \<and> extract_frames e vpath folder ds \<noteq> Some (Inl OSError)
         \<and> (\<forall>r. extract_frames e vpath folder ds = Some (Inr r) \<longrightarrow>
                dirs r = ds
                \<and> makedirs e' (dirs r) folder True = Inr ds
                \<and> extract_frames e' vpath' folder (dirs r) \<noteq> Some (Inl OSError))"
proof -
  have mk: "\<And>e :: 'a env. makedirs e ds folder True = Inr ds"
    and mk': "\<And>e :: 'b env. makedirs e ds folder True = Inr ds"
    using assms by (simp_all add: makedirs_def)
  have ne: "\<And>(e :: 'a env) vpath. extract_frames e vpath folder ds \<noteq> Some (Inl OSError)"
    and ne': "\<And>(e :: 'b env) vpath. extract_frames e vpath folder ds \<noteq> Some (Inl OSError)"
    by (simp_all add: extract_frames_def mk mk' split: option.splits)
  have d: "\<And>r. extract_frames e vpath folder ds = Some (Inr r) \<Longrightarrow> dirs r = ds"
    by (auto simp: extract_frames_def mk split: option.splits)
  show ?thesis using mk mk' ne ne' d by auto
qed

theorem makedirs_idempotent_witness:
  "''out'' \<in> {''out''}
   \<and> \<not> mkdir_ok readonly_env ''out''
   \<and> makedirs readonly_env {''out''} ''out'' True = Inr {''out''}
   \<and> extract_frames readonly_env ''clip.mp4'' ''out'' {''out''} \<noteq> Some (Inl OSError)"
proof -
  have h: "''out'' \<in> {''out''}" by simp
  have m: "\<not> mkdir_ok readonly_env ''out''" by (simp add: readonly_env_def)
  from makedirs_idempotent [OF h, of readonly_env "''clip.mp4''"] h m show ?thesis by blast
qed

subsection \<open>Failures the script does not notice\<close>

text \<open>
  Claim C2 says that a video source that cannot be opened ends the run abnormally with a
  source-open failure. The script does not ask the capture whether it is open: with a
  path that cannot be opened the first read fails, the loop ends, and the run completes
  with the message for zero frames.
\<close>

theorem unopened_source_counterexample:
  "video demo_env ''missing.mp4'' = None
   \<and> extract_frames demo_env ''missing.mp4'' ''out'' {} =
       Some (Inr \<lparr>dirs = {''out''},
                  final_cap = cap_release (VideoCapture demo_env ''missing.mp4''),
                  written = [],
                  stdout = [''Done! Extracted 0 frames.'']\<rparr>)"
  using extract_frames_unopened [OF demo_mkdir demo_video(2)]
  by (simp add: demo_video(2) done_message_0 cap_release_def VideoCapture_def)

text \<open>
  Claim C2, as the script has it. If the video source cannot be opened, the run signals
  no failure: it writes no output file (only the output folder is made), releases the
  capture and completes, reporting 0 frames.
\<close>

theorem unopened_source_completes:
  assumes "folder \<in> ds \<or> mkdir_ok e folder" and "video e vpath = None"
  shows "\<exists>r. extract_frames e vpath folder ds = Some (Inr r)
           \<and> dirs r = insert folder ds
           \<and> written r = []
           \<and> released (final_cap r)
           \<and> stdout r = [''Done! Extracted 0 frames.'']"
  using extract_frames_unopened [OF assms] by (simp add: done_message_0)

theorem unopened_source_completes_witness:
  "(''out'' \<in> {} \<or> mkdir_ok demo_env ''out'') \<and> video demo_env ''missing.mp4'' = None
   \<and> (\<exists>r. extract_frames demo_env ''missing.mp4'' ''out'' {} = Some (Inr r)
           \<and> dirs r = {''out''}
           \<and> written r = []
           \<and> released (final_cap r)
           \<and> stdout r = [''Done! Extracted 0 frames.''])"
  using unopened_source_completes [OF demo_mkdir demo_video(2)] demo_mkdir demo_video(2)
  by blast

text \<open>
  Claim C3 says that a failed image write aborts the run, with no frame decoded or written
  after it. The script does not look at the value \<^verbatim>\<open>cv2.imwrite\<close> returns: in a run of
  three frames whose first write fails, the second and third frame are decoded and
  written, and the message counts three frames.
\<close>

theorem failed_write_counterexample:
  "\<not> write_ok unwritable_env (frame_path ''out'' 0)
   \<and> extract_frames unwritable_env ''clip.mp4'' ''out'' {} =
       Some (Inr \<lparr>dirs = {''out''},
                  final_cap = cap_release ((VideoCapture unwritable_env ''clip.mp4'')\<lparr>pos := 3\<rparr>),
                  written = [(''out'' @ [backslash] @ ''frame_0000.png'', 0, False),
                             (''out'' @ [backslash] @ ''frame_0001.png'', 1, True),
                             (''out'' @ [backslash] @ ''frame_0002.png'', 2, True)],
                  stdout = [''Done! Extracted 3 frames.'']\<rparr>)"
proof -
  have "extract_frames unwritable_env ''clip.mp4'' ''out'' {} =
     Some (Inr \<lparr>dirs = insert ''out'' {},
                final_cap = \<lparr>opened = True, stream = clip, pos = 3, released = True\<rparr>,
                written = frame_log unwritable_env ''out'' clip 0 0 3,
                stdout = [done_message (int 3)]\<rparr>)"
    using unwritable_facts(1,2) clip_frames by (rule extract_frames_frames)
  then show ?thesis
    by (simp add: frame_log_3 unwritable_env_def demo_env_def frame_paths_out clip_def
          done_message_3 cap_release_def VideoCapture_def)
qed

text \<open>
  Claim C3, as the script has it. If the write of a frame's image fails, the run is not
  aborted: every frame of the source is still decoded and its write attempted under its
  own file name, the writes of the other frames are not undone, and the reported count
  includes the frame whose write failed.
\<close>

theorem failed_write_continues:
  assumes "folder \<in> ds \<or> mkdir_ok e folder" and "video e vpath = Some rd"
    and "\<forall>k<N. rd k \<noteq> None" and "rd N = None"
    and "i < N" and "\<not> write_ok e (frame_path folder (int i))"
  shows "\<exists>r. extract_frames e vpath folder ds = Some (Inr r)
           \<and> length (written r) = N
           \<and> written r ! i = (frame_path folder (int i), the (rd i), False)
           \<and> (\<forall>j<N. written r ! j =
                  (frame_path folder (int j), the (rd j), write_ok e (frame_path folder (int j))))
           \<and> pos (final_cap r) = N
           \<and> stdout r = [done_message (int N)]"
proof -
  let ?r = "\<lparr>dirs = insert folder ds,
             final_cap = \<lparr>opened = True, stream = rd, pos = N, released = True\<rparr>,
             written = frame_log e folder rd 0 0 N,
             stdout = [done_message (int N)]\<rparr>"
  have run: "extract_frames e vpath folder ds = Some (Inr ?r)"
    using assms(1-4) by (rule extract_frames_frames)
  have "\<forall>j<N. written ?r ! j =
                  (frame_path folder (int j), the (rd j), write_ok e (frame_path folder (int j)))"
    by (simp add: frame_log_nth)
  moreover from this assms(5,6)
  have "written ?r ! i = (frame_path folder (int i), the (rd i), False)" by simp
  moreover have "length (written ?r) = N" by (simp add: frame_log_length)
  moreover have "pos (final_cap ?r) = N" "stdout ?r = [done_message (int N)]" by simp_all
  ultimately show ?thesis using run by blast
qed

theorem failed_write_continues_witness:
  "(''out'' \<in> {} \<or> mkdir_ok unwritable_env ''out'') \<and> video unwritable_env ''clip.mp4'' = Some clip
   \<and> clip 0 \<noteq> None \<and> clip 1 \<noteq> None \<and> clip 2 \<noteq> None \<and> clip 3 = None \<and> (0::nat) < 3
   \<and> \<not> write_ok unwritable_env (frame_path ''out'' (int 0))
   \<and> (\<exists>r. extract_frames unwritable_env ''clip.mp4'' ''out'' {} = Some (Inr r)
           \<and> length (written r) = 3
           \<and> written r ! 0 = (frame_path ''out'' (int 0), the (clip 0), False)
           \<and> pos (final_cap r) = 3
           \<and> stdout r = [''Done! Extracted 3 frames.''])"
proof -
  have i: "(0::nat) < 3" by simp
  have w: "\<not> write_ok unwritable_env (frame_path ''out'' (int 0))"
    using unwritable_facts(3) by simp
  from failed_write_continues [OF unwritable_facts(1,2) clip_frames i w]
  have "\<exists>r. extract_frames unwritable_env ''clip.mp4'' ''out'' {} = Some (Inr r)
           \<and> length (written r) = 3
           \<and> written r ! 0 = (frame_path ''out'' (int 0), the (clip 0), False)
           \<and> pos (final_cap r) = 3
           \<and> stdout r = [''Done! Extracted 3 frames.'']"
    by (auto simp: done_message_3)
  with unwritable_facts(1,2) clip_frames(2) clip_each i w show ?thesis by blast
qed

end
